theory Spec2Isabelle
  imports Main "HOL-Library.AList"
begin

section \<open>The AutoComplete controller of static/app/components/autoComplete.tsx\<close>

text \<open>
  The component is a React class. Its methods are embedded as functions that take the
  instance and return it updated. Three things the methods use belong to the host and are
  made explicit in the instance:
  \<^item> \<open>setState\<close> inside a handler queues an update: \<open>this.state\<close> keeps its value until the
    handler has returned, and the queued updates are applied in order, a function updater
    receiving the state the earlier updates produced. The field \<open>pending\<close> is the state with
    the queued updates applied; \<open>flush\<close> makes it \<open>this.state\<close>;
  \<^item> \<open>window.setTimeout\<close> and \<open>window.clearTimeout\<close> work on a queue of timers under a
    logical clock;
  \<^item> every call that leaves the component (a callback of the caller, \<open>preventDefault\<close>
    on the event, \<open>console.warn\<close>) is appended to the field \<open>calls\<close>.
\<close>

subsection \<open>Data\<close>

text \<open>
  \<open>type Item\<close>. An item is an object, and \<open>!==\<close> on objects compares references, so every
  item carries its address. \<open>T extends Item\<close> is the record scheme.
\<close>

record Item =
  addr :: nat
  data_test_id :: "string option"
  disabled :: "bool option"

text \<open>The events the handlers receive; a keyboard event carries \<open>e.key\<close>, a change event
  \<open>e.target.value\<close>.\<close>

datatype event = ChangeEvent string | KeyboardEvent string | FocusEvent | MouseEvent

text \<open>\<open>type Props\<close> with \<open>defaultProps\<close> merged in. A callback is modelled by whether the
  caller supplied it; calling it is recorded in \<open>calls\<close>.\<close>

record 'z Props =
  itemToString :: "'z Item_scheme \<Rightarrow> string"
  inputIsActor :: bool
  disabled :: bool
  closeOnSelect :: bool
  shouldSelectWithEnter :: bool
  shouldSelectWithTab :: bool
  defaultHighlightedIndex :: "int option"
  defaultInputValue :: "string option"
  isOpen :: "bool option"
  onClose :: bool
  onMenuOpen :: bool
  onOpen :: bool
  onSelect :: bool
  resetInputOnClose :: "bool option"

record 'z State =
  highlightedIndex :: int
  inputValue :: string
  isOpen :: bool
  selectedItem :: "'z Item_scheme option"

datatype 'z call =
    OnOpen
  | OnClose
  | OnSelect "'z Item_scheme" "'z State" event
  | OnChange event
  | OnKeyDown event
  | OnFocus event
  | OnBlur event
  | PreventDefault event
  | ConsoleWarn string

text \<open>What a timer runs when it fires: the closure of \<open>makehandleInputBlur\<close> (with the
  caller's \<open>onBlur\<close>, if any, and the blur event), the closure of \<open>handleMenuMouseDown\<close>, and
  the rest of \<open>handleClickOutside\<close> after its \<open>await\<close>.\<close>

datatype timer_callback = BlurClose bool event | CancelBlurClose | ResumeClickOutside

record timer =
  timer_id :: nat
  due :: nat
  callback :: timer_callback

record 'z AutoComplete =
  props :: "'z Props"
  state :: "'z State"
  pending :: "'z State"
  items :: "(int \<times> 'z Item_scheme option) list"
  itemCount :: "int option"
  blurTimeout :: "nat option"
  cancelCloseTimeout :: "nat option"
  timers :: "timer list"
  clock :: nat
  fresh_timer :: nat
  calls :: "'z call list"

datatype js_error = TypeError

subsection \<open>The host: state updates, calls, timers\<close>

definition setState :: "('z State \<Rightarrow> 'z State) \<Rightarrow> 'z AutoComplete \<Rightarrow> 'z AutoComplete" where
  "setState f c = c\<lparr>pending := f (pending c)\<rparr>"

definition flush :: "'z AutoComplete \<Rightarrow> 'z AutoComplete" where
  "flush c = c\<lparr>state := pending c\<rparr>"

definition invoke :: "'z call \<Rightarrow> 'z AutoComplete \<Rightarrow> 'z AutoComplete" where
  "invoke x c = c\<lparr>calls := calls c @ [x]\<rparr>"

text \<open>\<open>cb?.(...)\<close>: the call happens when the callback was supplied.\<close>

definition invoke_opt :: "bool \<Rightarrow> 'z call \<Rightarrow> 'z AutoComplete \<Rightarrow> 'z AutoComplete" where
  "invoke_opt supplied x c = (if supplied then invoke x c else c)"

text \<open>\<open>window.setTimeout(cb, delay)\<close> returns the new timer's id; without a delay the delay
  is 0.\<close>

definition window_setTimeout ::
  "timer_callback \<Rightarrow> nat \<Rightarrow> 'z AutoComplete \<Rightarrow> nat \<times> 'z AutoComplete" where
  "window_setTimeout cb delay c =
     (fresh_timer c,
      c\<lparr>timers := timers c @ [\<lparr>timer_id = fresh_timer c, due = clock c + delay, callback = cb\<rparr>],
        fresh_timer := Suc (fresh_timer c)\<rparr>)"

text \<open>\<open>window.clearTimeout(id)\<close>: nothing happens for \<open>undefined\<close> or for a timer that has
  fired or was cleared.\<close>

definition window_clearTimeout :: "nat option \<Rightarrow> 'z AutoComplete \<Rightarrow> 'z AutoComplete" where
  "window_clearTimeout h c =
     (case h of
        None \<Rightarrow> c
      | Some i \<Rightarrow> c\<lparr>timers := filter (\<lambda>t. timer_id t \<noteq> i) (timers c)\<rparr>)"

subsection \<open>The component\<close>

definition getInitialState :: "'z Props \<Rightarrow> 'z State" where
  "getInitialState p =
     \<lparr>highlightedIndex = (case defaultHighlightedIndex p of None \<Rightarrow> 0 | Some n \<Rightarrow> n),
      inputValue = (case defaultInputValue p of None \<Rightarrow> [] | Some v \<Rightarrow> v),
      isOpen = (Props.isOpen p = Some True),
      selectedItem = None\<rparr>"

definition isControlled :: "'z AutoComplete \<Rightarrow> bool" where
  "isControlled c = (Props.isOpen (props c) \<noteq> None)"

text \<open>The getter \<open>isOpen\<close>: the flag the component hands to the dropdown.\<close>

definition get_isOpen :: "'z AutoComplete \<Rightarrow> bool" where
  "get_isOpen c =
     (case Props.isOpen (props c) of
        Some b \<Rightarrow> b
      | None \<Rightarrow> isOpen (state c))"

definition resetHighlightState :: "'z AutoComplete \<Rightarrow> 'z AutoComplete" where
  "resetHighlightState c =
     setState (\<lambda>s. s\<lparr>highlightedIndex :=
                       (case defaultHighlightedIndex (props c) of None \<Rightarrow> 0 | Some n \<Rightarrow> n)\<rparr>) c"

definition openMenu :: "'z AutoComplete \<Rightarrow> 'z AutoComplete" where
  "openMenu c =
     (let c1 = invoke_opt (onOpen (props c)) OnOpen c in
      if Props.disabled (props c) \<or> isControlled c then c1
      else setState (\<lambda>s. s\<lparr>isOpen := True\<rparr>) (resetHighlightState c1))"

definition closeMenu :: "'z AutoComplete \<Rightarrow> 'z AutoComplete" where
  "closeMenu c =
     (let c1 = invoke_opt (onClose (props c)) OnClose c in
      if isControlled c then c1
      else setState (\<lambda>s. s\<lparr>isOpen := False,
                            inputValue := (if resetInputOnClose (props c) = Some True then []
                                           else inputValue s)\<rparr>) c1)"

definition handleSelect :: "'z Item_scheme \<Rightarrow> event \<Rightarrow> 'z AutoComplete \<Rightarrow> 'z AutoComplete" where
  "handleSelect item e c =
     (let c1 = invoke_opt (onSelect (props c)) (OnSelect item (state c) e) c in
      if closeOnSelect (props c) then
        setState (\<lambda>s. s\<lparr>inputValue := itemToString (props c) item, selectedItem := Some item\<rparr>)
          (closeMenu c1)
      else setState (\<lambda>s. s\<lparr>selectedItem := Some item\<rparr>) c1)"

text \<open>\<open>this.itemCount ?? this.items.size\<close>. The registry is only written by \<open>AList.update\<close>
  from the empty list, so its keys are distinct and its length is the size of the map.\<close>

definition listSize :: "'z AutoComplete \<Rightarrow> int" where
  "listSize c = (case itemCount c of Some n \<Rightarrow> n | None \<Rightarrow> int (length (items c)))"

definition moveHighlightedIndex :: "int \<Rightarrow> 'z AutoComplete \<Rightarrow> 'z AutoComplete" where
  "moveHighlightedIndex step c =
     (let newIndex = highlightedIndex (state c) + step;
          newIndex = max 0 (min newIndex (listSize c - 1))
      in setState (\<lambda>s. s\<lparr>highlightedIndex := newIndex\<rparr>) c)"

text \<open>\<open>!item.disabled\<close> fails only for \<open>disabled: true\<close>.\<close>

definition is_disabled :: "'z Item_scheme \<Rightarrow> bool" where
  "is_disabled item = (Item.disabled item = Some True)"

definition makeHandleInputChange :: "bool \<Rightarrow> string \<Rightarrow> 'z AutoComplete \<Rightarrow> 'z AutoComplete" where
  "makeHandleInputChange onChange v c =
     invoke_opt onChange (OnChange (ChangeEvent v))
       (setState (\<lambda>s. s\<lparr>inputValue := v\<rparr>) (openMenu c))"

definition makeHandleInputFocus :: "bool \<Rightarrow> 'z AutoComplete \<Rightarrow> 'z AutoComplete" where
  "makeHandleInputFocus onFocus c = invoke_opt onFocus (OnFocus FocusEvent) (openMenu c)"

definition makehandleInputBlur :: "bool \<Rightarrow> 'z AutoComplete \<Rightarrow> 'z AutoComplete" where
  "makehandleInputBlur onBlur c =
     (let c1 = window_clearTimeout (blurTimeout c) c;
          (i, c2) = window_setTimeout (BlurClose onBlur FocusEvent) 200 c1
      in c2\<lparr>blurTimeout := Some i\<rparr>)"

text \<open>\<open>handleClickOutside\<close> up to its \<open>await\<close>: the promise is resolved by a timer without
  delay, and the rest of the function runs when that timer fires.\<close>

definition handleClickOutside :: "'z AutoComplete \<Rightarrow> 'z AutoComplete" where
  "handleClickOutside c =
     snd (window_setTimeout ResumeClickOutside 0 (window_clearTimeout (blurTimeout c) c))"

definition makeHandleInputKeydown :: "bool \<Rightarrow> string \<Rightarrow> 'z AutoComplete \<Rightarrow> 'z AutoComplete" where
  "makeHandleInputKeydown onKeyDown k c =
     (let e = KeyboardEvent k;
          hasHighlightedItem = (map_of (items c) (highlightedIndex (state c)) \<noteq> None);
          isEnter = (shouldSelectWithEnter (props c) \<and> k = ''Enter'');
          isTab = (shouldSelectWithTab (props c) \<and> k = ''Tab'');
          c1 = (if hasHighlightedItem \<and> (isEnter \<or> isTab) then
                  invoke (PreventDefault e)
                    (case map_of (items c) (highlightedIndex (state c)) of
                       Some (Some item) \<Rightarrow> if \<not> is_disabled item then handleSelect item e c else c
                     | _ \<Rightarrow> c)
                else c);
          c2 = (if k = ''ArrowUp'' then invoke (PreventDefault e) (moveHighlightedIndex (- 1) c1)
                else c1);
          c3 = (if k = ''ArrowDown'' then invoke (PreventDefault e) (moveHighlightedIndex 1 c2)
                else c2);
          c4 = (if k = ''Escape'' then closeMenu c3 else c3)
      in invoke_opt onKeyDown (OnKeyDown e) c4)"

definition makeHandleItemClick :: "'z Item_scheme \<Rightarrow> int \<Rightarrow> 'z AutoComplete \<Rightarrow> 'z AutoComplete" where
  "makeHandleItemClick item index c =
     (if is_disabled item then c
      else handleSelect item MouseEvent
             (setState (\<lambda>s. s\<lparr>highlightedIndex := index\<rparr>)
                (window_clearTimeout (blurTimeout c) c)))"

definition makeHandleMouseEnter :: "'z Item_scheme \<Rightarrow> int \<Rightarrow> 'z AutoComplete \<Rightarrow> 'z AutoComplete" where
  "makeHandleMouseEnter item index c =
     (if is_disabled item then c else setState (\<lambda>s. s\<lparr>highlightedIndex := index\<rparr>) c)"

definition handleMenuMouseDown :: "'z AutoComplete \<Rightarrow> 'z AutoComplete" where
  "handleMenuMouseDown c =
     (let c1 = window_clearTimeout (cancelCloseTimeout c) c;
          (i, c2) = window_setTimeout CancelBlurClose 0 c1
      in c2\<lparr>cancelCloseTimeout := Some i\<rparr>)"

text \<open>\<open>getItemProps\<close> returns the props of one item: its test id and the two handlers, which
  are closures over the item and its index. Reading \<open>item['data-test-id']\<close> of an
  \<open>undefined\<close> item throws, after the registry was written.\<close>

record 'z GetItemArgs =
  item :: "'z Item_scheme option"
  index :: "int option"

record 'z ItemProps =
  test_id :: "string option"
  onClick :: "'z AutoComplete \<Rightarrow> 'z AutoComplete"
  onMouseEnter :: "'z AutoComplete \<Rightarrow> 'z AutoComplete"

definition getItemProps ::
  "'z GetItemArgs option \<Rightarrow> 'z AutoComplete \<Rightarrow> (js_error + 'z ItemProps) \<times> 'z AutoComplete" where
  "getItemProps itemProps c =
     (let (x, i) = (case itemProps of None \<Rightarrow> (None, None) | Some a \<Rightarrow> (item a, index a));
          c1 = (if x = None
                then invoke (ConsoleWarn ''getItemProps requires an object with an `item` key'') c
                else c);
          newIndex = (case i of None \<Rightarrow> int (length (items c1)) | Some n \<Rightarrow> n);
          c2 = c1\<lparr>items := AList.update newIndex x (items c1)\<rparr>
      in case x of
           None \<Rightarrow> (Inl TypeError, c2)
         | Some it \<Rightarrow>
             (Inr \<lparr>test_id = data_test_id it,
                   onClick = makeHandleItemClick it newIndex,
                   onMouseEnter = makeHandleMouseEnter it newIndex\<rparr>, c2))"

definition getMenuProps :: "int option \<Rightarrow> 'z AutoComplete \<Rightarrow> 'z AutoComplete" where
  "getMenuProps n c = c\<lparr>itemCount := n\<rparr>"






definition UNSAFE_componentWillUpdate :: "'z AutoComplete \<Rightarrow> 'z AutoComplete" where
  "UNSAFE_componentWillUpdate c = c\<lparr>items := []\<rparr>"

definition componentWillUnmount :: "'z AutoComplete \<Rightarrow> 'z AutoComplete" where
  "componentWillUnmount c =
     window_clearTimeout (cancelCloseTimeout c) (window_clearTimeout (blurTimeout c) c)"

subsection \<open>The event loop\<close>

definition run_callback :: "timer_callback \<Rightarrow> 'z AutoComplete \<Rightarrow> 'z AutoComplete" where
  "run_callback cb c =
     (case cb of
        BlurClose onBlur e \<Rightarrow> invoke_opt onBlur (OnBlur e) (closeMenu c)
      | CancelBlurClose \<Rightarrow> window_clearTimeout (blurTimeout c) c
      | ResumeClickOutside \<Rightarrow> closeMenu c)"

text \<open>The timer that fires next is the one due first, the older one of two that are due at
  the same time (the queue is in order of creation).\<close>

fun earliest :: "timer list \<Rightarrow> timer option" where
  "earliest [] = None"
| "earliest (t # ts) =
     (case earliest ts of
        None \<Rightarrow> Some t
      | Some u \<Rightarrow> if due u < due t then Some u else Some t)"

text \<open>A timer fires as a task of its own: it leaves the queue, its callback runs, and the
  updates the callback queued are applied.\<close>

definition fire :: "timer \<Rightarrow> 'z AutoComplete \<Rightarrow> 'z AutoComplete" where
  "fire t c =
     flush (run_callback (callback t)
              (c\<lparr>timers := filter (\<lambda>u. timer_id u \<noteq> timer_id t) (timers c),
                 clock := max (clock c) (due t)\<rparr>))"

text \<open>One scheduling tick: the next timer, if there is one, fires.\<close>

definition tick :: "'z AutoComplete \<Rightarrow> 'z AutoComplete" where
  "tick c = (case earliest (timers c) of None \<Rightarrow> c | Some t \<Rightarrow> fire t c)"

text \<open>Letting time pass: the timers due up to the new time fire in order. No callback of
  this component sets a timer, so the length of the queue bounds the number of firings.\<close>

fun run_until :: "nat \<Rightarrow> nat \<Rightarrow> 'z AutoComplete \<Rightarrow> 'z AutoComplete" where
  "run_until 0 t c = c"
| "run_until (Suc n) t c =
     (case earliest (filter (\<lambda>u. due u \<le> t) (timers c)) of
        None \<Rightarrow> c
      | Some u \<Rightarrow> run_until n t (fire u c))"

definition elapse :: "nat \<Rightarrow> 'z AutoComplete \<Rightarrow> 'z AutoComplete" where
  "elapse d c = (run_until (length (timers c)) (clock c + d) c)\<lparr>clock := clock c + d\<rparr>"

subsection \<open>Rendering after an event\<close>

text \<open>After a handler has returned, the queued updates are applied, \<open>componentWillUpdate\<close>
  clears the registry, and \<open>render\<close> calls the children, which bind the menu and the items
  again. The children are given by what they bind: the item count of the menu and the
  items with their indices.\<close>

fun register :: "(int option \<times> 'z Item_scheme) list \<Rightarrow> 'z AutoComplete \<Rightarrow> 'z AutoComplete" where
  "register [] c = c"
| "register ((i, x) # rs) c =
     register rs (snd (getItemProps (Some \<lparr>item = Some x, index = i\<rparr>) c))"

definition rerender ::
  "int option \<Rightarrow> (int option \<times> 'z Item_scheme) list \<Rightarrow> 'z AutoComplete \<Rightarrow> 'z AutoComplete" where
  "rerender n rs c = register rs (getMenuProps n (UNSAFE_componentWillUpdate (flush c)))"

text \<open>A sequence of key presses on the input, each followed by the render it causes.\<close>

fun keydowns ::
  "int option \<Rightarrow> (int option \<times> 'z Item_scheme) list \<Rightarrow> string list \<Rightarrow>
   'z AutoComplete \<Rightarrow> 'z AutoComplete" where
  "keydowns n rs [] c = c"
| "keydowns n rs (k # ks) c = keydowns n rs ks (rerender n rs (makeHandleInputKeydown False k c))"

subsection \<open>Instances to evaluate on\<close>

text \<open>The instance as the constructor leaves it.\<close>

definition mount :: "'z Props \<Rightarrow> 'z AutoComplete" where
  "mount p =
     \<lparr>props = p, state = getInitialState p, pending = getInitialState p, items = [],
      itemCount = None, blurTimeout = None, cancelCloseTimeout = None, timers = [],
      clock = 0, fresh_timer = 1, calls = []\<rparr>"

definition example_item :: "nat \<Rightarrow> Item" where
  "example_item n = \<lparr>addr = n, data_test_id = None, disabled = None\<rparr>"

text \<open>The default props, with the three notification callbacks supplied.\<close>

definition example_props :: "unit Props" where
  "example_props =
     \<lparr>itemToString = (\<lambda>x. if addr x = 3 then ''three'' else ''other''),
      inputIsActor = True, disabled = False, closeOnSelect = True,
      shouldSelectWithEnter = True, shouldSelectWithTab = False,
      defaultHighlightedIndex = None, defaultInputValue = None, isOpen = None,
      onClose = True, onMenuOpen = False, onOpen = True, onSelect = True,
      resetInputOnClose = None\<rparr>"

text \<open>Children that bind three items at the indices 0, 1 and 2.\<close>

definition example_children :: "(int option \<times> Item) list" where
  "example_children = [(Some 0, example_item 1), (Some 1, example_item 2), (Some 2, example_item 3)]"

text \<open>An open menu with these three items bound and the third one highlighted.\<close>

definition example :: "unit AutoComplete" where
  "example =
     (mount example_props)
       \<lparr>items := [(0, Some (example_item 1)), (1, Some (example_item 2)), (2, Some (example_item 3))],
        state := (getInitialState example_props)\<lparr>highlightedIndex := 2, isOpen := True\<rparr>,
        pending := (getInitialState example_props)\<lparr>highlightedIndex := 2, isOpen := True\<rparr>\<rparr>"

text \<open>The same menu under a caller that supplies \<open>isOpen\<close> and under one that keeps the
  menu open on selection; and the props of a caller that sets \<open>disabled\<close>.\<close>

definition example_controlled :: "unit AutoComplete" where
  "example_controlled = example\<lparr>props := example_props\<lparr>Props.isOpen := Some True\<rparr>\<rparr>"



definition example_disabled_props :: "unit Props" where
  "example_disabled_props = example_props\<lparr>Props.disabled := True\<rparr>"

text \<open>A virtualized list of ten items of which the three are rendered, the sixth one
  highlighted.\<close>

definition example_virtual :: "unit AutoComplete" where
  "example_virtual =
     example\<lparr>itemCount := Some 10,
             state := (state example)\<lparr>highlightedIndex := 5\<rparr>,
             pending := (state example)\<lparr>highlightedIndex := 5\<rparr>\<rparr>"

text \<open>A menu whose only item is disabled and highlighted.\<close>

definition example_disabled_item :: "unit AutoComplete" where
  "example_disabled_item =
     (mount example_props)
       \<lparr>items := [(0, Some ((example_item 1)\<lparr>Item.disabled := Some True\<rparr>))],
        state := (getInitialState example_props)\<lparr>isOpen := True\<rparr>,
        pending := (getInitialState example_props)\<lparr>isOpen := True\<rparr>\<rparr>"

section \<open>Properties\<close>

subsection \<open>What the parts of a handler do\<close>

lemmas host_defs = setState_def flush_def invoke_def invoke_opt_def window_setTimeout_def
  window_clearTimeout_def

lemma invoke_frame:
  "pending (invoke x c) = pending c" "state (invoke x c) = state c"
  "items (invoke x c) = items c" "itemCount (invoke x c) = itemCount c"
  "props (invoke x c) = props c"
  "pending (invoke_opt b x c) = pending c" "state (invoke_opt b x c) = state c"
  "items (invoke_opt b x c) = items c" "itemCount (invoke_opt b x c) = itemCount c"
  "props (invoke_opt b x c) = props c"
  by (simp_all add: invoke_def invoke_opt_def)

lemma clearTimeout_frame:
  "state (window_clearTimeout h c) = state c" "props (window_clearTimeout h c) = props c"
  "pending (window_clearTimeout h c) = pending c" "calls (window_clearTimeout h c) = calls c"
  "items (window_clearTimeout h c) = items c" "itemCount (window_clearTimeout h c) = itemCount c"
  by (simp_all add: window_clearTimeout_def split: option.splits)

lemma openMenu_stops:
  assumes "isControlled c \<or> Props.disabled (props c)"
  shows "openMenu c = c\<lparr>calls := calls c @ (if onOpen (props c) then [OnOpen] else [])\<rparr>"
  using assms by (auto simp add: openMenu_def invoke_opt_def invoke_def Let_def)

lemma openMenu_opens:
  assumes "\<not> isControlled c" "\<not> Props.disabled (props c)"
  shows "openMenu c =
           c\<lparr>calls := calls c @ (if onOpen (props c) then [OnOpen] else []),
             pending := (pending c)\<lparr>highlightedIndex :=
                 (case defaultHighlightedIndex (props c) of None \<Rightarrow> 0 | Some n \<Rightarrow> n),
               isOpen := True\<rparr>\<rparr>"
  using assms
  by (auto simp add: openMenu_def invoke_opt_def invoke_def Let_def resetHighlightState_def
      setState_def)

lemma closeMenu_stops:
  assumes "isControlled c"
  shows "closeMenu c = c\<lparr>calls := calls c @ (if onClose (props c) then [OnClose] else [])\<rparr>"
  using assms by (auto simp add: closeMenu_def invoke_opt_def invoke_def Let_def)

lemma closeMenu_calls:
  "calls (closeMenu c) = calls c @ (if onClose (props c) then [OnClose] else [])"
  by (simp add: closeMenu_def host_defs Let_def)

lemma handleSelect_calls:
  "calls (handleSelect X e c) =
     calls c @ (if onSelect (props c) then [OnSelect X (state c) e] else [])
             @ (if closeOnSelect (props c) \<and> onClose (props c) then [OnClose] else [])"
  by (simp add: handleSelect_def closeMenu_def host_defs Let_def)

lemma handleSelect_close_pending:
  assumes "closeOnSelect (props c)"
  shows "pending (handleSelect X e c) =
           (if isControlled c then pending c
            else (pending c)\<lparr>isOpen := False,
                   inputValue := (if resetInputOnClose (props c) = Some True then []
                                  else inputValue (pending c))\<rparr>)
           \<lparr>inputValue := itemToString (props c) X, selectedItem := Some X\<rparr>"
  using assms by (simp add: handleSelect_def closeMenu_def isControlled_def host_defs Let_def)

lemma handleSelect_frame:
  "state (handleSelect X e c) = state c" "props (handleSelect X e c) = props c"
  "items (handleSelect X e c) = items c" "timers (handleSelect X e c) = timers c"
  by (simp_all add: handleSelect_def closeMenu_def isControlled_def host_defs Let_def)

lemma moveHighlightedIndex_frame:
  "calls (moveHighlightedIndex n c) = calls c" "state (moveHighlightedIndex n c) = state c"
  "props (moveHighlightedIndex n c) = props c" "items (moveHighlightedIndex n c) = items c"
  "itemCount (moveHighlightedIndex n c) = itemCount c"
  by (simp_all add: moveHighlightedIndex_def setState_def Let_def)

lemma moveHighlightedIndex_pending:
  "pending (moveHighlightedIndex step c) =
     (pending c)\<lparr>highlightedIndex := max 0 (min (highlightedIndex (state c) + step) (listSize c - 1))\<rparr>"
  by (simp add: moveHighlightedIndex_def setState_def Let_def)

lemma keydown_select:
  assumes "k = ''Enter'' \<and> shouldSelectWithEnter (props c) \<or> k = ''Tab'' \<and> shouldSelectWithTab (props c)"
    and "map_of (items c) (highlightedIndex (state c)) = Some (Some X)"
    and "\<not> is_disabled X"
  shows "makeHandleInputKeydown onKeyDown k c =
           invoke_opt onKeyDown (OnKeyDown (KeyboardEvent k))
             (invoke (PreventDefault (KeyboardEvent k)) (handleSelect X (KeyboardEvent k) c))"
  using assms unfolding makeHandleInputKeydown_def Let_def by auto

lemma keydown_arrow:
  "makeHandleInputKeydown onKeyDown ''ArrowUp'' c =
     invoke_opt onKeyDown (OnKeyDown (KeyboardEvent ''ArrowUp''))
       (invoke (PreventDefault (KeyboardEvent ''ArrowUp'')) (moveHighlightedIndex (- 1) c))"
  "makeHandleInputKeydown onKeyDown ''ArrowDown'' c =
     invoke_opt onKeyDown (OnKeyDown (KeyboardEvent ''ArrowDown''))
       (invoke (PreventDefault (KeyboardEvent ''ArrowDown'')) (moveHighlightedIndex 1 c))"
  by (simp_all add: makeHandleInputKeydown_def Let_def)

text \<open>Everything a key press on the input calls, in order: the selection's callbacks,
  \<open>preventDefault\<close>, the \<open>onClose\<close> of Escape, the caller's own handler.\<close>

lemma keydown_calls:
  "calls (makeHandleInputKeydown onKeyDown k c) =
     calls c
     @ (case map_of (items c) (highlightedIndex (state c)) of
          Some (Some X) \<Rightarrow>
            if (k = ''Enter'' \<and> shouldSelectWithEnter (props c) \<or> k = ''Tab'' \<and> shouldSelectWithTab (props c))
               \<and> \<not> is_disabled X
            then (if onSelect (props c) then [OnSelect X (state c) (KeyboardEvent k)] else [])
                 @ (if closeOnSelect (props c) \<and> onClose (props c) then [OnClose] else [])
            else []
        | _ \<Rightarrow> [])
     @ (if (k = ''Enter'' \<and> shouldSelectWithEnter (props c) \<or> k = ''Tab'' \<and> shouldSelectWithTab (props c))
             \<and> map_of (items c) (highlightedIndex (state c)) \<noteq> None
           \<or> k = ''ArrowUp'' \<or> k = ''ArrowDown''
        then [PreventDefault (KeyboardEvent k)] else [])
     @ (if k = ''Escape'' \<and> onClose (props c) then [OnClose] else [])
     @ (if onKeyDown then [OnKeyDown (KeyboardEvent k)] else [])"
proof -
  consider "k = ''Enter''" | "k = ''Tab''" | "k = ''ArrowUp''" | "k = ''ArrowDown''" | "k = ''Escape''"
    | "k \<noteq> ''Enter''" "k \<noteq> ''Tab''" "k \<noteq> ''ArrowUp''" "k \<noteq> ''ArrowDown''" "k \<noteq> ''Escape''"
    by blast
  then show ?thesis
  proof cases
    case 1
    then show ?thesis
      by (simp add: makeHandleInputKeydown_def Let_def invoke_opt_def invoke_def
          handleSelect_calls split: option.splits)
  next
    case 2
    then show ?thesis
      by (simp add: makeHandleInputKeydown_def Let_def invoke_opt_def invoke_def
          handleSelect_calls split: option.splits)
  next
    case 3
    then show ?thesis
      by (simp add: makeHandleInputKeydown_def Let_def invoke_opt_def invoke_def
          moveHighlightedIndex_frame split: option.splits)
  next
    case 4
    then show ?thesis
      by (simp add: makeHandleInputKeydown_def Let_def invoke_opt_def invoke_def
          moveHighlightedIndex_frame split: option.splits)
  next
    case 5
    then show ?thesis
      by (simp add: makeHandleInputKeydown_def Let_def invoke_opt_def invoke_def
          closeMenu_calls split: option.splits)
  next
    case 6
    then show ?thesis
      by (simp add: makeHandleInputKeydown_def Let_def invoke_opt_def invoke_def
          split: option.splits)
  qed
qed

lemma click_select:
  assumes "\<not> is_disabled X"
  shows "makeHandleItemClick X i c =
           handleSelect X MouseEvent
             (setState (\<lambda>s. s\<lparr>highlightedIndex := i\<rparr>) (window_clearTimeout (blurTimeout c) c))"
  using assms by (simp add: makeHandleItemClick_def)

subsection \<open>Selection\<close>

text \<open>
  C1. With \<open>closeOnSelect\<close> set, selecting an item \<open>X\<close> that is not disabled, by Enter or
  Tab on the highlighted registry entry (the key's flag being set) or by a click on the item,
  calls \<open>onSelect(X, this.state, e)\<close> when the caller supplied it, then \<open>onClose\<close>, and the
  state the handler leaves has \<open>inputValue = itemToString(X)\<close> and \<open>selectedItem = X\<close>; when
  the component is not controlled its \<open>isOpen\<close> is false, and so is the flag the getter
  reports.
\<close>

theorem select_closes_and_fills_input:
  assumes "closeOnSelect (props c)" and "\<not> is_disabled X"
  shows "((k = ''Enter'' \<and> shouldSelectWithEnter (props c) \<or> k = ''Tab'' \<and> shouldSelectWithTab (props c))
          \<and> map_of (items c) (highlightedIndex (state c)) = Some (Some X) \<longrightarrow>
          (let c' = flush (makeHandleInputKeydown onKeyDown k c) in
             calls c' = calls c
               @ (if onSelect (props c) then [OnSelect X (state c) (KeyboardEvent k)] else [])
               @ (if onClose (props c) then [OnClose] else [])
               @ [PreventDefault (KeyboardEvent k)]
               @ (if onKeyDown then [OnKeyDown (KeyboardEvent k)] else []) \<and>
             inputValue (state c') = itemToString (props c) X \<and>
             selectedItem (state c') = Some X \<and>
             (\<not> isControlled c \<longrightarrow> \<not> isOpen (state c') \<and> \<not> get_isOpen c')))
       \<and> (let c' = flush (makeHandleItemClick X i c) in
             calls c' = calls c
               @ (if onSelect (props c) then [OnSelect X (state c) MouseEvent] else [])
               @ (if onClose (props c) then [OnClose] else []) \<and>
             inputValue (state c') = itemToString (props c) X \<and>
             selectedItem (state c') = Some X \<and>
             (\<not> isControlled c \<longrightarrow> \<not> isOpen (state c') \<and> \<not> get_isOpen c'))"
proof (intro conjI impI)
  assume h: "(k = ''Enter'' \<and> shouldSelectWithEnter (props c) \<or> k = ''Tab'' \<and> shouldSelectWithTab (props c))
          \<and> map_of (items c) (highlightedIndex (state c)) = Some (Some X)"
  have eq: "makeHandleInputKeydown onKeyDown k c =
           invoke_opt onKeyDown (OnKeyDown (KeyboardEvent k))
             (invoke (PreventDefault (KeyboardEvent k)) (handleSelect X (KeyboardEvent k) c))"
    using h assms(2) by (intro keydown_select) auto
  show "let c' = flush (makeHandleInputKeydown onKeyDown k c) in
             calls c' = calls c
               @ (if onSelect (props c) then [OnSelect X (state c) (KeyboardEvent k)] else [])
               @ (if onClose (props c) then [OnClose] else [])
               @ [PreventDefault (KeyboardEvent k)]
               @ (if onKeyDown then [OnKeyDown (KeyboardEvent k)] else []) \<and>
             inputValue (state c') = itemToString (props c) X \<and>
             selectedItem (state c') = Some X \<and>
             (\<not> isControlled c \<longrightarrow> \<not> isOpen (state c') \<and> \<not> get_isOpen c')"
    unfolding eq Let_def
    using assms(1)
    by (simp add: flush_def invoke_def invoke_opt_def get_isOpen_def isControlled_def
        handleSelect_close_pending [OF assms(1)] handleSelect_calls handleSelect_frame)
next
  define c0 where
    "c0 = setState (\<lambda>s. s\<lparr>highlightedIndex := i\<rparr>) (window_clearTimeout (blurTimeout c) c)"
  have eq: "makeHandleItemClick X i c = handleSelect X MouseEvent c0"
    unfolding c0_def by (rule click_select [OF assms(2)])
  have f: "props c0 = props c" "calls c0 = calls c" "state c0 = state c"
    by (simp_all add: c0_def setState_def clearTimeout_frame)
  have p: "closeOnSelect (props c0)"
    using assms(1) f by simp
  show "let c' = flush (makeHandleItemClick X i c) in
             calls c' = calls c
               @ (if onSelect (props c) then [OnSelect X (state c) MouseEvent] else [])
               @ (if onClose (props c) then [OnClose] else []) \<and>
             inputValue (state c') = itemToString (props c) X \<and>
             selectedItem (state c') = Some X \<and>
             (\<not> isControlled c \<longrightarrow> \<not> isOpen (state c') \<and> \<not> get_isOpen c')"
    unfolding eq Let_def
    using assms(1)
    by (simp add: flush_def get_isOpen_def isControlled_def f
        handleSelect_close_pending [OF p] handleSelect_calls handleSelect_frame)
qed

theorem select_closes_and_fills_input_witness:
  "closeOnSelect (props example) \<and> \<not> is_disabled (example_item 3) \<and>
   shouldSelectWithEnter (props example) \<and>
   map_of (items example) (highlightedIndex (state example)) = Some (Some (example_item 3)) \<and>
   \<not> isControlled example \<and>
   (let c' = flush (makeHandleInputKeydown False ''Enter'' example) in
      calls c' = [OnSelect (example_item 3) (state example) (KeyboardEvent ''Enter''), OnClose,
                  PreventDefault (KeyboardEvent ''Enter'')] \<and>
      inputValue (state c') = ''three'' \<and> selectedItem (state c') = Some (example_item 3) \<and>
      \<not> isOpen (state c'))"
proof -
  have a: "closeOnSelect (props example)"
    by (simp add: example_def example_props_def mount_def)
  have b: "\<not> is_disabled (example_item 3)"
    by (simp add: is_disabled_def example_item_def)
  have c: "shouldSelectWithEnter (props example)"
    by (simp add: example_def example_props_def mount_def)
  have d: "map_of (items example) (highlightedIndex (state example)) = Some (Some (example_item 3))"
    by (simp add: example_def example_props_def mount_def getInitialState_def)
  have e: "\<not> isControlled example"
    by (simp add: isControlled_def example_def example_props_def mount_def)
  have g: "calls example = []" "onSelect (props example)" "onClose (props example)"
    "itemToString (props example) (example_item 3) = ''three''"
    by (simp_all add: example_def example_props_def mount_def example_item_def)
  note t = select_closes_and_fills_input [OF a b, of "''Enter''" False 2]
  show ?thesis
    using t a b c d e g by (simp add: Let_def)
qed





subsection \<open>Navigation\<close>

lemma getItemProps_frame:
  "pending (snd (getItemProps a c)) = pending c" "state (snd (getItemProps a c)) = state c"
  "itemCount (snd (getItemProps a c)) = itemCount c" "props (snd (getItemProps a c)) = props c"
  by (simp_all add: getItemProps_def invoke_def Let_def split: option.splits prod.splits)

lemma getItemProps_items:
  "items (snd (getItemProps (Some \<lparr>item = Some x, index = i\<rparr>) c)) =
     AList.update (case i of None \<Rightarrow> int (length (items c)) | Some n \<Rightarrow> n) (Some x) (items c)"
  by (simp add: getItemProps_def Let_def)

lemma register_frame:
  "pending (register rs c) = pending c \<and> state (register rs c) = state c \<and>
   itemCount (register rs c) = itemCount c \<and> props (register rs c) = props c"
  by (induction rs c rule: register.induct) (simp_all add: getItemProps_frame)

text \<open>What a render pass registers depends on the children only, the registry being
  cleared before.\<close>

lemma register_items:
  "items c = items c' \<Longrightarrow> items (register rs c) = items (register rs c')"
proof (induction rs arbitrary: c c')
  case Nil
  then show ?case by simp
next
  case (Cons r rs)
  obtain i x where r: "r = (i, x)" by (cases r)
  show ?case
    unfolding r register.simps
    by (rule Cons.IH) (simp add: getItemProps_items Cons.prems split: option.splits)
qed

lemma rerender_fields:
  "state (rerender n rs c) = pending c" "pending (rerender n rs c) = pending c"
  "itemCount (rerender n rs c) = n" "props (rerender n rs c) = props c"
  by (simp_all add: rerender_def register_frame getMenuProps_def UNSAFE_componentWillUpdate_def
      flush_def)

lemma rerender_items: "items (rerender n rs c) = items (rerender n rs c')"
  unfolding rerender_def
  by (rule register_items)
     (simp add: getMenuProps_def UNSAFE_componentWillUpdate_def flush_def)

lemma rerender_listSize: "listSize (rerender n rs c) = listSize (rerender n rs c')"
  using rerender_items [of n rs c c'] by (cases n) (simp_all add: listSize_def rerender_fields)

lemma arrow_step:
  assumes "k = ''ArrowUp'' \<or> k = ''ArrowDown''"
  shows "highlightedIndex (state (rerender n rs (makeHandleInputKeydown False k c))) =
           max 0 (min (highlightedIndex (state c) + (if k = ''ArrowUp'' then - 1 else 1))
                      (listSize c - 1))"
  using assms
  by (auto simp add: rerender_fields keydown_arrow invoke_frame moveHighlightedIndex_pending)

lemma keydowns_in_range:
  assumes "set ks \<subseteq> {''ArrowUp'', ''ArrowDown''}" and "1 \<le> listSize (rerender n rs c0)"
    and "ks \<noteq> [] \<or> (0 \<le> highlightedIndex (state (rerender n rs c0)) \<and>
           highlightedIndex (state (rerender n rs c0)) \<le> listSize (rerender n rs c0) - 1)"
  shows "listSize (keydowns n rs ks (rerender n rs c0)) = listSize (rerender n rs c0) \<and>
         0 \<le> highlightedIndex (state (keydowns n rs ks (rerender n rs c0))) \<and>
         highlightedIndex (state (keydowns n rs ks (rerender n rs c0))) \<le> listSize (rerender n rs c0) - 1"
  using assms
proof (induction ks arbitrary: c0)
  case Nil
  then show ?case by simp
next
  case (Cons k ks)
  let ?c = "rerender n rs c0"
  let ?c1 = "makeHandleInputKeydown False k ?c"
  have k: "k = ''ArrowUp'' \<or> k = ''ArrowDown''" using Cons.prems(1) by auto
  have L: "listSize (rerender n rs ?c1) = listSize ?c" by (rule rerender_listSize)
  have r: "0 \<le> highlightedIndex (state (rerender n rs ?c1)) \<and>
           highlightedIndex (state (rerender n rs ?c1)) \<le> listSize ?c - 1"
    unfolding arrow_step [OF k] using Cons.prems(2) by auto
  have "listSize (keydowns n rs ks (rerender n rs ?c1)) = listSize (rerender n rs ?c1) \<and>
         0 \<le> highlightedIndex (state (keydowns n rs ks (rerender n rs ?c1))) \<and>
         highlightedIndex (state (keydowns n rs ks (rerender n rs ?c1))) \<le> listSize (rerender n rs ?c1) - 1"
    using Cons.prems(1,2) r L by (intro Cons.IH) auto
  then show ?case by (simp add: L)
qed

lemma keydowns_up_at_first:
  assumes "highlightedIndex (state (rerender n rs c0)) = 0"
  shows "highlightedIndex (state (keydowns n rs (replicate m ''ArrowUp'') (rerender n rs c0))) = 0"
  using assms
proof (induction m arbitrary: c0)
  case 0
  then show ?case by simp
next
  case (Suc m)
  have "highlightedIndex (state (rerender n rs (makeHandleInputKeydown False ''ArrowUp'' (rerender n rs c0)))) = 0"
    using Suc.prems by (simp add: arrow_step)
  then show ?case by (simp add: Suc.IH)
qed

lemma keydowns_down_at_last:
  assumes "1 \<le> listSize (rerender n rs c0)"
    and "highlightedIndex (state (rerender n rs c0)) = listSize (rerender n rs c0) - 1"
  shows "highlightedIndex (state (keydowns n rs (replicate m ''ArrowDown'') (rerender n rs c0))) =
           listSize (rerender n rs c0) - 1"
  using assms
proof (induction m arbitrary: c0)
  case 0
  then show ?case by simp
next
  case (Suc m)
  let ?c1 = "makeHandleInputKeydown False ''ArrowDown'' (rerender n rs c0)"
  have L: "listSize (rerender n rs ?c1) = listSize (rerender n rs c0)" by (rule rerender_listSize)
  have "highlightedIndex (state (rerender n rs ?c1)) = listSize (rerender n rs c0) - 1"
    using Suc.prems by (simp add: arrow_step)
  then have "highlightedIndex (state (keydowns n rs (replicate m ''ArrowDown'') (rerender n rs ?c1))) =
           listSize (rerender n rs ?c1) - 1"
    using Suc.prems(1) L by (intro Suc.IH) auto
  then show ?case by (simp add: L)
qed

text \<open>
  C2, as the code has it. \<open>moveHighlightedIndex(step)\<close> queues the index
  \<open>max(0, min(current + step, listSize - 1))\<close>, where \<open>listSize\<close> is \<open>itemCount\<close> if set and the
  size of the registry otherwise; ArrowUp moves by -1 and ArrowDown by +1. When the list
  size is at least 1, the index after any sequence of ArrowUp and ArrowDown presses (each
  followed by its render, the children binding the same menu and items) is within
  \<open>[0, listSize - 1]\<close>, if the sequence is not empty or the index was within the range
  before; ArrowUp any number of times at 0 leaves 0, ArrowDown any number of times at the
  last index leaves the last index. When the list size is 0 or less the range is empty and
  the index becomes 0.
\<close>

theorem clamped_navigation:
  assumes "set ks \<subseteq> {''ArrowUp'', ''ArrowDown''}"
    and "c = rerender n rs c0"
    and "1 \<le> listSize c"
    and "ks \<noteq> [] \<or> (0 \<le> highlightedIndex (state c) \<and> highlightedIndex (state c) \<le> listSize c - 1)"
  shows "pending (moveHighlightedIndex step d) =
           (pending d)\<lparr>highlightedIndex :=
              max 0 (min (highlightedIndex (state d) + step) (listSize d - 1))\<rparr> \<and>
         makeHandleInputKeydown onKeyDown ''ArrowUp'' d =
           invoke_opt onKeyDown (OnKeyDown (KeyboardEvent ''ArrowUp''))
             (invoke (PreventDefault (KeyboardEvent ''ArrowUp'')) (moveHighlightedIndex (- 1) d)) \<and>
         makeHandleInputKeydown onKeyDown ''ArrowDown'' d =
           invoke_opt onKeyDown (OnKeyDown (KeyboardEvent ''ArrowDown''))
             (invoke (PreventDefault (KeyboardEvent ''ArrowDown'')) (moveHighlightedIndex 1 d)) \<and>
         (listSize d \<le> 0 \<longrightarrow> highlightedIndex (pending (moveHighlightedIndex step d)) = 0) \<and>
         listSize (keydowns n rs ks c) = listSize c \<and>
         0 \<le> highlightedIndex (state (keydowns n rs ks c)) \<and>
         highlightedIndex (state (keydowns n rs ks c)) \<le> listSize c - 1 \<and>
         (highlightedIndex (state c) = 0 \<longrightarrow>
            highlightedIndex (state (keydowns n rs (replicate m ''ArrowUp'') c)) = 0) \<and>
         (highlightedIndex (state c) = listSize c - 1 \<longrightarrow>
            highlightedIndex (state (keydowns n rs (replicate m ''ArrowDown'') c)) = listSize c - 1)"
proof -
  have a: "pending (moveHighlightedIndex step d) =
           (pending d)\<lparr>highlightedIndex :=
              max 0 (min (highlightedIndex (state d) + step) (listSize d - 1))\<rparr>"
    by (rule moveHighlightedIndex_pending)
  have b: "listSize d \<le> 0 \<longrightarrow> highlightedIndex (pending (moveHighlightedIndex step d)) = 0"
    by (simp add: a)
  have s: "listSize (keydowns n rs ks c) = listSize c \<and>
         0 \<le> highlightedIndex (state (keydowns n rs ks c)) \<and>
         highlightedIndex (state (keydowns n rs ks c)) \<le> listSize c - 1"
    using assms(1,3,4) unfolding assms(2) by (rule keydowns_in_range)
  have u: "highlightedIndex (state c) = 0 \<longrightarrow>
            highlightedIndex (state (keydowns n rs (replicate m ''ArrowUp'') c)) = 0"
    unfolding assms(2) by (simp add: keydowns_up_at_first)
  have w: "highlightedIndex (state c) = listSize c - 1 \<longrightarrow>
            highlightedIndex (state (keydowns n rs (replicate m ''ArrowDown'') c)) = listSize c - 1"
    using assms(3) unfolding assms(2) by (simp add: keydowns_down_at_last)
  show ?thesis
    using a b s u w keydown_arrow [of onKeyDown d] by blast
qed

theorem clamped_navigation_witness:
  "listSize (rerender None example_children (mount example_props)) = 3 \<and>
   highlightedIndex
     (state (keydowns None example_children [''ArrowDown'', ''ArrowDown'', ''ArrowDown'', ''ArrowUp'']
               (rerender None example_children (mount example_props)))) \<le> 2 \<and>
   0 \<le> highlightedIndex
     (state (keydowns None example_children [''ArrowDown'', ''ArrowDown'', ''ArrowDown'', ''ArrowUp'']
               (rerender None example_children (mount example_props))))"
proof -
  let ?c = "rerender None example_children (mount example_props)"
  have i: "items ?c = [(0, Some (example_item 1)), (1, Some (example_item 2)), (2, Some (example_item 3))]"
    by (simp add: rerender_def example_children_def getItemProps_items getMenuProps_def
        UNSAFE_componentWillUpdate_def flush_def mount_def)
  have L: "listSize ?c = 3"
    by (simp add: listSize_def rerender_fields i)
  have k: "set [''ArrowDown'', ''ArrowDown'', ''ArrowDown'', ''ArrowUp''] \<subseteq> {''ArrowUp'', ''ArrowDown''}"
    by simp
  have g: "1 \<le> listSize ?c" by (simp add: L)
  have ne: "[''ArrowDown'', ''ArrowDown'', ''ArrowDown'', ''ArrowUp''] \<noteq> [] \<or>
     (0 \<le> highlightedIndex (state ?c) \<and> highlightedIndex (state ?c) \<le> listSize ?c - 1)"
    by simp
  note t = clamped_navigation [OF k refl g ne, where step = 1 and d = "?c" and onKeyDown = False
      and m = 0]
  let ?ks = "[''ArrowDown'', ''ArrowDown'', ''ArrowDown'', ''ArrowUp'']"
  from t have "0 \<le> highlightedIndex (state (keydowns None example_children ?ks ?c)) \<and>
      highlightedIndex (state (keydowns None example_children ?ks ?c)) \<le> listSize ?c - 1"
    by blast
  then show ?thesis
    unfolding L by simp
qed

text \<open>
  C2 as stated fails when there is nothing to navigate: with an empty registry and no item
  count the list size is 0, ArrowDown leaves the index at 0, and 0 is not within
  \<open>[0, listSize - 1] = [0, -1]\<close>.
\<close>

theorem clamped_navigation_counterexample:
  "listSize (flush (makeHandleInputKeydown False ''ArrowDown'' (mount example_props))) = 0 \<and>
   highlightedIndex (state (flush (makeHandleInputKeydown False ''ArrowDown'' (mount example_props)))) = 0 \<and>
   \<not> highlightedIndex (state (flush (makeHandleInputKeydown False ''ArrowDown'' (mount example_props))))
       \<le> listSize (flush (makeHandleInputKeydown False ''ArrowDown'' (mount example_props))) - 1"
  by (simp add: keydown_arrow invoke_opt_def invoke_def flush_def listSize_def
      moveHighlightedIndex_def setState_def mount_def getInitialState_def example_props_def Let_def)

subsection \<open>Opening and closing\<close>

text \<open>
  C3, as the code has it. A change event on the input calls \<open>openMenu\<close> first (so \<open>onOpen\<close>
  precedes the caller's \<open>onChange\<close>) and then sets \<open>inputValue\<close> to the event's text, whatever
  the state was. When the component is neither controlled nor disabled, the state the
  handler leaves has \<open>isOpen = true\<close>, the default highlight index and the typed text. When
  it is controlled or the prop \<open>disabled\<close> is set, \<open>openMenu\<close> stops after \<open>onOpen\<close>: \<open>isOpen\<close>
  and the highlight index keep their values and only \<open>inputValue\<close> changes.
\<close>

theorem change_opens_and_sets_input:
  "let c' = flush (makeHandleInputChange onChange v c) in
     inputValue (state c') = v \<and>
     calls c' = calls c @ (if onOpen (props c) then [OnOpen] else [])
                        @ (if onChange then [OnChange (ChangeEvent v)] else []) \<and>
     (\<not> isControlled c \<and> \<not> Props.disabled (props c) \<longrightarrow>
        isOpen (state c') \<and> get_isOpen c' \<and>
        highlightedIndex (state c') =
          (case defaultHighlightedIndex (props c) of None \<Rightarrow> 0 | Some n \<Rightarrow> n)) \<and>
     (isControlled c \<or> Props.disabled (props c) \<longrightarrow>
        isOpen (state c') = isOpen (pending c) \<and>
        highlightedIndex (state c') = highlightedIndex (pending c))"
proof (cases "isControlled c \<or> Props.disabled (props c)")
  case True
  show ?thesis
    unfolding makeHandleInputChange_def openMenu_stops [OF True] Let_def
    using True by (auto simp add: flush_def setState_def invoke_opt_def invoke_def)
next
  case False
  then have a: "\<not> isControlled c" and b: "\<not> Props.disabled (props c)" by auto
  show ?thesis
    unfolding makeHandleInputChange_def openMenu_opens [OF a b] Let_def
    using a b
    by (simp add: flush_def setState_def invoke_opt_def invoke_def get_isOpen_def isControlled_def)
qed

theorem change_opens_and_sets_input_witness:
  "\<not> isControlled (mount example_props) \<and> \<not> Props.disabled (props (mount example_props)) \<and>
   \<not> isOpen (state (mount example_props)) \<and>
   (let c' = flush (makeHandleInputChange True ''ab'' (mount example_props)) in
      inputValue (state c') = ''ab'' \<and> calls c' = [OnOpen, OnChange (ChangeEvent ''ab'')] \<and>
      isOpen (state c') \<and> highlightedIndex (state c') = 0)"
  using change_opens_and_sets_input [of True "''ab''" "mount example_props"]
  by (simp add: Let_def isControlled_def example_props_def mount_def getInitialState_def)

text \<open>
  C3 as stated fails under the prop \<open>disabled\<close>: the component is not controlled, the menu
  is closed, and after the change event it is still closed, with the typed text in
  \<open>inputValue\<close>.
\<close>

theorem change_opens_counterexample:
  "\<not> isControlled (mount example_disabled_props) \<and>
   \<not> isOpen (state (flush (makeHandleInputChange False ''ab'' (mount example_disabled_props)))) \<and>
   \<not> get_isOpen (flush (makeHandleInputChange False ''ab'' (mount example_disabled_props))) \<and>
   inputValue (state (flush (makeHandleInputChange False ''ab'' (mount example_disabled_props)))) = ''ab''"
  by (simp add: isControlled_def get_isOpen_def mount_def example_disabled_props_def
      example_props_def makeHandleInputChange_def openMenu_def host_defs getInitialState_def
      Let_def)

text \<open>
  C5, as the code has it. When the caller supplies \<open>isOpen\<close>, \<open>openMenu\<close> calls \<open>onOpen\<close> and
  \<open>closeMenu\<close> calls \<open>onClose\<close> (when supplied) and neither does anything else: no update is
  queued, so \<open>openMenu\<close> does not reset the highlight, and the flag the getter reports is the
  caller's value before and after.
\<close>

theorem controlled_open_close:
  assumes "Props.isOpen (props c) = Some b"
  shows "openMenu c = c\<lparr>calls := calls c @ (if onOpen (props c) then [OnOpen] else [])\<rparr> \<and>
         closeMenu c = c\<lparr>calls := calls c @ (if onClose (props c) then [OnClose] else [])\<rparr> \<and>
         get_isOpen c = b \<and>
         get_isOpen (flush (openMenu c)) = b \<and> get_isOpen (flush (closeMenu c)) = b \<and>
         pending (openMenu c) = pending c \<and> pending (closeMenu c) = pending c"
proof -
  have k: "isControlled c" using assms by (simp add: isControlled_def)
  then have k': "isControlled c \<or> Props.disabled (props c)" by simp
  show ?thesis
    unfolding openMenu_stops [OF k'] closeMenu_stops [OF k]
    using assms by (simp add: get_isOpen_def flush_def)
qed

theorem controlled_open_close_witness:
  "Props.isOpen (props example_controlled) = Some True \<and>
   calls (openMenu example_controlled) = [OnOpen] \<and>
   calls (closeMenu example_controlled) = [OnClose] \<and>
   get_isOpen (flush (closeMenu example_controlled)) \<and>
   pending (openMenu example_controlled) = pending example_controlled"
proof -
  have h: "Props.isOpen (props example_controlled) = Some True"
    by (simp add: example_controlled_def example_def example_props_def mount_def)
  have f: "calls example_controlled = []" "onOpen (props example_controlled)"
    "onClose (props example_controlled)"
    by (simp_all add: example_controlled_def example_def example_props_def mount_def)
  show ?thesis
    using controlled_open_close [OF h] h f by (simp add: get_isOpen_def flush_def)
qed

text \<open>
  C5 as stated fails on the highlight: in controlled mode, with the default index 0 and the
  third item highlighted, \<open>openMenu\<close> calls \<open>onOpen\<close> and the highlight stays at 2.
\<close>

theorem controlled_open_counterexample:
  "isControlled example_controlled \<and>
   defaultHighlightedIndex (props example_controlled) = None \<and>
   highlightedIndex (state example_controlled) = 2 \<and>
   calls (flush (openMenu example_controlled)) = [OnOpen] \<and>
   highlightedIndex (state (flush (openMenu example_controlled))) = 2"
  by (simp add: isControlled_def example_controlled_def example_def example_props_def mount_def
      openMenu_def host_defs getInitialState_def Let_def)

subsection \<open>Key presses\<close>

text \<open>
  C8, as the code has it. The keydown handler calls \<open>preventDefault\<close> once when the key is
  ArrowUp or ArrowDown, and once when the key is Enter or Tab, its flag is set and the
  highlighted index has an entry in the registry, whether or not that entry is disabled;
  for every other key press it does not call it. On a disabled highlighted item Enter and
  Tab (flag set) call \<open>preventDefault\<close> although nothing is selected: the instance changes
  in nothing but that call and the caller's \<open>onKeyDown\<close>.
\<close>

theorem keydown_preventDefault:
  "count_list (calls (makeHandleInputKeydown onKeyDown k c)) (PreventDefault (KeyboardEvent k)) =
     count_list (calls c) (PreventDefault (KeyboardEvent k)) +
     (if (k = ''Enter'' \<and> shouldSelectWithEnter (props c) \<or> k = ''Tab'' \<and> shouldSelectWithTab (props c))
           \<and> map_of (items c) (highlightedIndex (state c)) \<noteq> None
         \<or> k = ''ArrowUp'' \<or> k = ''ArrowDown''
      then 1 else 0) \<and>
   ((k = ''Enter'' \<and> shouldSelectWithEnter (props c) \<or> k = ''Tab'' \<and> shouldSelectWithTab (props c))
      \<and> map_of (items c) (highlightedIndex (state c)) = Some (Some X) \<and> is_disabled X \<longrightarrow>
    makeHandleInputKeydown onKeyDown k c =
      c\<lparr>calls := calls c @ [PreventDefault (KeyboardEvent k)]
                         @ (if onKeyDown then [OnKeyDown (KeyboardEvent k)] else [])\<rparr>)"
proof (intro conjI impI)
  show "count_list (calls (makeHandleInputKeydown onKeyDown k c)) (PreventDefault (KeyboardEvent k)) =
     count_list (calls c) (PreventDefault (KeyboardEvent k)) +
     (if (k = ''Enter'' \<and> shouldSelectWithEnter (props c) \<or> k = ''Tab'' \<and> shouldSelectWithTab (props c))
           \<and> map_of (items c) (highlightedIndex (state c)) \<noteq> None
         \<or> k = ''ArrowUp'' \<or> k = ''ArrowDown''
      then 1 else 0)"
    unfolding keydown_calls
    by (simp split: option.splits)
next
  assume h: "(k = ''Enter'' \<and> shouldSelectWithEnter (props c) \<or> k = ''Tab'' \<and> shouldSelectWithTab (props c))
      \<and> map_of (items c) (highlightedIndex (state c)) = Some (Some X) \<and> is_disabled X"
  then show "makeHandleInputKeydown onKeyDown k c =
      c\<lparr>calls := calls c @ [PreventDefault (KeyboardEvent k)]
                         @ (if onKeyDown then [OnKeyDown (KeyboardEvent k)] else [])\<rparr>"
    unfolding makeHandleInputKeydown_def Let_def
    by (auto simp add: invoke_opt_def invoke_def)
qed

theorem keydown_preventDefault_witness:
  "shouldSelectWithEnter (props example_disabled_item) \<and>
   map_of (items example_disabled_item) (highlightedIndex (state example_disabled_item)) =
     Some (Some ((example_item 1)\<lparr>Item.disabled := Some True\<rparr>)) \<and>
   is_disabled ((example_item 1)\<lparr>Item.disabled := Some True\<rparr>) \<and>
   makeHandleInputKeydown True ''Enter'' example_disabled_item =
     example_disabled_item\<lparr>calls := [PreventDefault (KeyboardEvent ''Enter''),
                                       OnKeyDown (KeyboardEvent ''Enter'')]\<rparr>"
proof -
  have a: "shouldSelectWithEnter (props example_disabled_item)"
    "calls example_disabled_item = []"
    by (simp_all add: example_disabled_item_def example_props_def mount_def)
  have b: "map_of (items example_disabled_item) (highlightedIndex (state example_disabled_item)) =
     Some (Some ((example_item 1)\<lparr>Item.disabled := Some True\<rparr>))"
    by (simp add: example_disabled_item_def example_props_def mount_def getInitialState_def)
  have d: "is_disabled ((example_item 1)\<lparr>Item.disabled := Some True\<rparr>)"
    by (simp add: is_disabled_def)
  note t = keydown_preventDefault [of True "''Enter''" example_disabled_item
      "(example_item 1)\<lparr>Item.disabled := Some True\<rparr>", THEN conjunct2]
  show ?thesis
    using t a b d by simp
qed

text \<open>
  C8 as stated fails on a disabled item: Enter on the highlighted, disabled item selects
  nothing (\<open>onSelect\<close> is supplied and is not called, no update is queued) and
  \<open>preventDefault\<close> is called all the same.
\<close>

theorem keydown_preventDefault_counterexample:
  "onSelect (props example_disabled_item) \<and>
   calls (makeHandleInputKeydown False ''Enter'' example_disabled_item) =
     [PreventDefault (KeyboardEvent ''Enter'')] \<and>
   pending (makeHandleInputKeydown False ''Enter'' example_disabled_item) =
     pending example_disabled_item"
  by (simp add: makeHandleInputKeydown_def example_disabled_item_def example_props_def mount_def
      getInitialState_def is_disabled_def invoke_opt_def invoke_def Let_def)

text \<open>
  C10. When the highlighted index has no entry in the registry, as under virtualization
  when \<open>itemCount\<close> exceeds what is rendered, an Enter or Tab key press selects nothing: the
  handler only calls the caller's own \<open>onKeyDown\<close>, if supplied. Neither \<open>onSelect\<close> nor
  \<open>preventDefault\<close> is called, no update is queued and no other field of the instance
  changes.
\<close>

theorem keydown_without_registry_entry:
  assumes "k = ''Enter'' \<or> k = ''Tab''"
    and "map_of (items c) (highlightedIndex (state c)) = None"
  shows "makeHandleInputKeydown onKeyDown k c =
           c\<lparr>calls := calls c @ (if onKeyDown then [OnKeyDown (KeyboardEvent k)] else [])\<rparr>"
  using assms unfolding makeHandleInputKeydown_def Let_def
  by (auto simp add: invoke_opt_def invoke_def)

theorem keydown_without_registry_entry_witness:
  "listSize example_virtual = 10 \<and>
   map_of (items example_virtual) (highlightedIndex (state example_virtual)) = None \<and>
   makeHandleInputKeydown True ''Enter'' example_virtual =
     example_virtual\<lparr>calls := [OnKeyDown (KeyboardEvent ''Enter'')]\<rparr> \<and>
   makeHandleInputKeydown False ''Tab'' example_virtual = example_virtual"
proof -
  have a: "map_of (items example_virtual) (highlightedIndex (state example_virtual)) = None"
    "calls example_virtual = []" "listSize example_virtual = 10"
    by (simp_all add: example_virtual_def example_def mount_def listSize_def)
  have e: "''Enter'' = ''Enter'' \<or> ''Enter'' = ''Tab''" by simp
  have t: "''Tab'' = ''Enter'' \<or> ''Tab'' = ''Tab''" by simp
  show ?thesis
    using keydown_without_registry_entry [OF e a(1), of True]
      keydown_without_registry_entry [OF t a(1), of False] a
    by simp
qed

subsection \<open>Binding an item\<close>

text \<open>
  C9. \<open>getItemProps\<close> without an item (no argument at all, or an argument whose \<open>item\<close> is
  \<open>undefined\<close>) logs the warning and writes the registry at the computed index, and then
  throws: reading \<open>item['data-test-id']\<close> of \<open>undefined\<close> is a TypeError, so no props are
  returned and the render that made the call is aborted.
\<close>

theorem getItemProps_without_item:
  "getItemProps (Some \<lparr>item = None, index = i\<rparr>) c =
     (Inl TypeError,
      c\<lparr>calls := calls c @ [ConsoleWarn ''getItemProps requires an object with an `item` key''],
        items := AList.update (case i of None \<Rightarrow> int (length (items c)) | Some n \<Rightarrow> n) None
                   (items c)\<rparr>) \<and>
   getItemProps None c =
     (Inl TypeError,
      c\<lparr>calls := calls c @ [ConsoleWarn ''getItemProps requires an object with an `item` key''],
        items := AList.update (int (length (items c))) None (items c)\<rparr>)"
  by (simp add: getItemProps_def invoke_def Let_def split: option.splits)

subsection \<open>Timers\<close>

lemmas loop_defs = elapse_def fire_def run_callback_def window_clearTimeout_def
  window_setTimeout_def flush_def tick_def

lemma earliest_in_set: "earliest ts = Some u \<Longrightarrow> u \<in> set ts"
  by (induction ts arbitrary: u) (auto split: option.splits if_splits)

lemma earliest_none: "earliest ts = None \<longleftrightarrow> ts = []"
  by (induction ts) (auto split: option.splits)

lemma closeMenu_timers: "timers (closeMenu c) = timers c"
  by (simp add: closeMenu_def setState_def invoke_opt_def invoke_def Let_def)

lemma run_callback_timers:
  "timers (run_callback cb c) = timers c \<or>
   (\<exists>i. timers (run_callback cb c) = filter (\<lambda>t. timer_id t \<noteq> i) (timers c))"
proof (cases cb)
  case (BlurClose b e)
  then show ?thesis
    by (simp add: run_callback_def closeMenu_timers invoke_opt_def invoke_def)
next
  case CancelBlurClose
  then show ?thesis
    by (cases "blurTimeout c") (auto simp add: run_callback_def window_clearTimeout_def)
next
  case ResumeClickOutside
  then show ?thesis
    by (simp add: run_callback_def closeMenu_timers)
qed

text \<open>A callback sets no timer: firing a timer takes it off the queue and adds none.\<close>

lemma fire_timers_length:
  assumes "u \<in> set (timers c)"
  shows "length (timers (fire u c)) < length (timers c)"
proof -
  define c0 where
    "c0 = c\<lparr>timers := filter (\<lambda>t. timer_id t \<noteq> timer_id u) (timers c),
             clock := max (clock c) (due u)\<rparr>"
  have t0: "timers c0 = filter (\<lambda>t. timer_id t \<noteq> timer_id u) (timers c)"
    by (simp add: c0_def)
  have f: "timers (fire u c) = timers (run_callback (callback u) c0)"
    by (simp add: fire_def flush_def c0_def)
  have "length (timers (run_callback (callback u) c0)) \<le> length (timers c0)"
    using run_callback_timers [of "callback u" c0] by (elim disjE exE) simp_all
  moreover have "length (timers c0) < length (timers c)"
    unfolding t0 using assms by (intro length_filter_less [of u]) simp_all
  ultimately show ?thesis
    unfolding f by simp
qed

text \<open>The fuel of \<open>elapse\<close> is enough: when the time has passed, no timer that was due is
  left on the queue.\<close>

lemma run_until_complete:
  "length (timers c) \<le> n \<Longrightarrow> \<forall>u \<in> set (timers (run_until n t c)). t < due u"
proof (induction n arbitrary: c)
  case 0
  then show ?case by simp
next
  case (Suc n)
  show ?case
  proof (cases "earliest (filter (\<lambda>u. due u \<le> t) (timers c))")
    case None
    then have "filter (\<lambda>u. due u \<le> t) (timers c) = []"
      by (simp add: earliest_none)
    then have "\<forall>u \<in> set (timers c). t < due u"
      by (auto simp add: filter_empty_conv)
    then show ?thesis using None by simp
  next
    case (Some u)
    then have "u \<in> set (filter (\<lambda>u. due u \<le> t) (timers c))"
      by (rule earliest_in_set)
    then have "u \<in> set (timers c)" by simp
    then have "length (timers (fire u c)) \<le> n"
      using fire_timers_length [of u c] Suc.prems by simp
    then have "\<forall>v \<in> set (timers (run_until n t (fire u c))). t < due v"
      by (rule Suc.IH)
    then show ?thesis using Some by simp
  qed
qed

lemma elapse_complete: "\<forall>u \<in> set (timers (elapse d c)). clock c + d < due u"
  using run_until_complete [of c "length (timers c)" "clock c + d"] by (simp add: elapse_def)

lemma blur_alone:
  assumes "timers c = []"
  shows "makehandleInputBlur onBlur c =
           c\<lparr>timers := [\<lparr>timer_id = fresh_timer c, due = clock c + 200,
                          callback = BlurClose onBlur FocusEvent\<rparr>],
             fresh_timer := Suc (fresh_timer c),
             blurTimeout := Some (fresh_timer c)\<rparr>"
  using assms
  by (simp add: makehandleInputBlur_def window_clearTimeout_def window_setTimeout_def Let_def
      split: option.splits)

lemma elapse_nothing_due:
  assumes "\<forall>t \<in> set (timers c). clock c + d < due t"
  shows "elapse d c = c\<lparr>clock := clock c + d\<rparr>"
proof -
  have "filter (\<lambda>u. due u \<le> clock c + d) (timers c) = []"
    using assms by (auto simp add: filter_empty_conv)
  then have "run_until n (clock c + d) c = c" for n
    by (cases n) simp_all
  then show ?thesis by (simp add: elapse_def)
qed

lemma blur_then_wait:
  assumes "timers c = []" and "d < 200"
  shows "elapse d (makehandleInputBlur onBlur c) =
           c\<lparr>timers := [\<lparr>timer_id = fresh_timer c, due = clock c + 200,
                          callback = BlurClose onBlur FocusEvent\<rparr>],
             fresh_timer := Suc (fresh_timer c),
             blurTimeout := Some (fresh_timer c),
             clock := clock c + d\<rparr>"
  unfolding blur_alone [OF assms(1)]
  using assms(2) by (subst elapse_nothing_due) simp_all

text \<open>Left alone, the blur closes the menu once 200 time units have passed: the timer
  fires, \<open>closeMenu\<close> calls \<open>onClose\<close>, and the caller's \<open>onBlur\<close> follows.\<close>

lemma blur_alone_closes:
  assumes "timers c = []" and "200 \<le> D"
  shows "calls (elapse D (makehandleInputBlur onBlur c)) =
           calls c @ (if onClose (props c) then [OnClose] else [])
                   @ (if onBlur then [OnBlur FocusEvent] else [])"
  unfolding blur_alone [OF assms(1)]
  using assms(2)
  by (simp add: loop_defs closeMenu_def invoke_opt_def invoke_def setState_def Let_def)

lemma mousedown_after_blur:
  assumes "timers c = []" and "pending c = state c" and "d < 200"
  shows "elapse D (handleMenuMouseDown (elapse d (makehandleInputBlur onBlur c))) =
           c\<lparr>timers := [], fresh_timer := Suc (Suc (fresh_timer c)),
             blurTimeout := Some (fresh_timer c),
             cancelCloseTimeout := Some (Suc (fresh_timer c)),
             clock := clock c + d + D\<rparr>"
  unfolding blur_then_wait [OF assms(1,3)]
  using assms
  by (cases "cancelCloseTimeout c")
     (auto simp add: handleMenuMouseDown_def loop_defs Let_def)

lemma blur_after_mousedown:
  assumes "timers c = []" and "pending c = state c"
    and "case blurTimeout c of None \<Rightarrow> True | Some i \<Rightarrow> i < fresh_timer c"
  shows "elapse D (makehandleInputBlur onBlur (handleMenuMouseDown c)) =
           c\<lparr>timers := [], fresh_timer := Suc (Suc (fresh_timer c)),
             blurTimeout := Some (Suc (fresh_timer c)),
             cancelCloseTimeout := Some (fresh_timer c),
             clock := clock c + D\<rparr>"
  using assms
  by (cases "cancelCloseTimeout c"; cases "blurTimeout c")
     (auto simp add: handleMenuMouseDown_def makehandleInputBlur_def loop_defs Let_def)

text \<open>
  C6. No timer is pending and no update is queued; the timer id the instance holds in
  \<open>blurTimeout\<close>, if any, was handed out before. The input blurs, and \<open>d < 200\<close> time units
  later the menu receives a mousedown; or the mousedown is delivered first and the blur
  right after it, before any timer runs. In both orders, at any time \<open>D\<close> later no timer is
  left, nothing was called (so \<open>onClose\<close> was not), and the state and the flag the getter
  reports are what they were: the timer of the mousedown has fired and cleared the timer of
  the blur.
\<close>

theorem blur_then_menu_mousedown:
  assumes "timers c = []" and "pending c = state c" and "d < 200"
    and "case blurTimeout c of None \<Rightarrow> True | Some i \<Rightarrow> i < fresh_timer c"
  shows "(let c' = elapse D (handleMenuMouseDown (elapse d (makehandleInputBlur onBlur c))) in
            timers c' = [] \<and> calls c' = calls c \<and> state c' = state c \<and>
            get_isOpen c' = get_isOpen c) \<and>
         (let c' = elapse D (makehandleInputBlur onBlur (handleMenuMouseDown c)) in
            timers c' = [] \<and> calls c' = calls c \<and> state c' = state c \<and>
            get_isOpen c' = get_isOpen c)"
  unfolding mousedown_after_blur [OF assms(1,2,3)] blur_after_mousedown [OF assms(1,2,4)]
  by (simp add: get_isOpen_def split: option.splits)

theorem blur_then_menu_mousedown_witness:
  "timers example = [] \<and> pending example = state example \<and> blurTimeout example = None \<and>
   isOpen (state example) \<and>
   (let c' = elapse 1000 (handleMenuMouseDown (elapse 150 (makehandleInputBlur True example))) in
      timers c' = [] \<and> calls c' = [] \<and> isOpen (state c')) \<and>
   (let c' = elapse 1000 (makehandleInputBlur True (handleMenuMouseDown example)) in
      timers c' = [] \<and> calls c' = [] \<and> isOpen (state c')) \<and>
   calls (elapse 1000 (makehandleInputBlur True example)) = [OnClose, OnBlur FocusEvent]"
proof -
  have a: "timers example = []" "pending example = state example" "blurTimeout example = None"
    "calls example = []" "isOpen (state example)" "onClose (props example)"
    by (simp_all add: example_def mount_def example_props_def)
  have b: "case blurTimeout example of None \<Rightarrow> True | Some i \<Rightarrow> i < fresh_timer example"
    by (simp add: a)
  have d: "(150::nat) < 200" by simp
  have l: "calls (elapse 1000 (makehandleInputBlur True example)) = [OnClose, OnBlur FocusEvent]"
    using blur_alone_closes [OF a(1), of 1000 True] a by simp
  show ?thesis
    using blur_then_menu_mousedown [OF a(1,2) d b, of 1000 True] a l
    by (simp add: Let_def)
qed

lemma click_outside_after_blur:
  assumes "timers c = []" and "d < 200"
  shows "handleClickOutside (elapse d (makehandleInputBlur onBlur c)) =
           c\<lparr>timers := [\<lparr>timer_id = Suc (fresh_timer c), due = clock c + d,
                          callback = ResumeClickOutside\<rparr>],
             fresh_timer := Suc (Suc (fresh_timer c)),
             blurTimeout := Some (fresh_timer c),
             clock := clock c + d\<rparr>"
  unfolding blur_then_wait [OF assms]
  by (simp add: handleClickOutside_def window_clearTimeout_def window_setTimeout_def)

lemma click_outside_no_blur_timer:
  "\<forall>t \<in> set (timers (handleClickOutside c)).
     (\<exists>b e. callback t = BlurClose b e) \<longrightarrow> Some (timer_id t) \<noteq> blurTimeout c"
  by (auto simp add: handleClickOutside_def window_clearTimeout_def window_setTimeout_def
      split: option.splits)

lemma tick_resume:
  assumes "timers c = [\<lparr>timer_id = i, due = t, callback = ResumeClickOutside\<rparr>]"
  shows "tick c = flush (closeMenu (c\<lparr>timers := [], clock := max (clock c) t\<rparr>))"
  using assms by (simp add: tick_def fire_def run_callback_def)

text \<open>
  C7. \<open>handleClickOutside\<close> clears the timer held in \<open>blurTimeout\<close> at once: in any instance,
  no blur timer with that id is pending when it has run up to its \<open>await\<close>. When the input
  blurred \<open>d < 200\<close> time units before the outside click (\<open>d = 0\<close>: just before) and nothing
  else was pending, the only timer left is the one that resumes the handler, and nothing
  has been called or changed yet; one tick later the handler has resumed and called
  \<open>closeMenu\<close>: \<open>onClose\<close> is called once, the menu is closed unless the component is
  controlled, no timer is left, and nothing more is called at any later time, so the blur
  timer never closes the menu.
\<close>

theorem click_outside_cancels_blur_close:
  assumes "timers c = []" and "d < 200"
  shows "(\<forall>t \<in> set (timers (handleClickOutside c')).
            (\<exists>b e. callback t = BlurClose b e) \<longrightarrow> Some (timer_id t) \<noteq> blurTimeout c') \<and>
         (let c1 = handleClickOutside (elapse d (makehandleInputBlur onBlur c));
              c2 = tick c1
          in map callback (timers c1) = [ResumeClickOutside] \<and>
             calls c1 = calls c \<and> state c1 = state c \<and> pending c1 = pending c \<and>
             timers c2 = [] \<and>
             calls c2 = calls c @ (if onClose (props c) then [OnClose] else []) \<and>
             (\<not> isControlled c \<longrightarrow> \<not> isOpen (state c2) \<and> \<not> get_isOpen c2) \<and>
             calls (elapse D c2) = calls c2 \<and> state (elapse D c2) = state c2)"
proof (intro conjI)
  show "\<forall>t \<in> set (timers (handleClickOutside c')).
            (\<exists>b e. callback t = BlurClose b e) \<longrightarrow> Some (timer_id t) \<noteq> blurTimeout c'"
    by (rule click_outside_no_blur_timer)
next
  let ?c1 = "handleClickOutside (elapse d (makehandleInputBlur onBlur c))"
  have c1: "?c1 = c\<lparr>timers := [\<lparr>timer_id = Suc (fresh_timer c), due = clock c + d,
                          callback = ResumeClickOutside\<rparr>],
             fresh_timer := Suc (Suc (fresh_timer c)),
             blurTimeout := Some (fresh_timer c),
             clock := clock c + d\<rparr>"
    by (rule click_outside_after_blur [OF assms])
  have t: "timers ?c1 = [\<lparr>timer_id = Suc (fresh_timer c), due = clock c + d,
                          callback = ResumeClickOutside\<rparr>]"
    by (simp add: c1)
  have c2: "tick ?c1 = flush (closeMenu (?c1\<lparr>timers := [], clock := max (clock ?c1) (clock c + d)\<rparr>))"
    by (rule tick_resume [OF t])
  have f: "calls ?c1 = calls c" "state ?c1 = state c" "props ?c1 = props c"
    "pending ?c1 = pending c"
    by (simp_all add: c1)
  have tm: "timers (tick ?c1) = []"
    unfolding c2 by (simp add: flush_def closeMenu_def host_defs Let_def)
  have g: "calls (tick ?c1) = calls c @ (if onClose (props c) then [OnClose] else [])"
    "props (tick ?c1) = props c"
    "\<not> isControlled c \<longrightarrow> \<not> isOpen (state (tick ?c1))"
    unfolding c2
    by (simp_all add: flush_def closeMenu_def host_defs Let_def isControlled_def f)
  have e: "elapse D (tick ?c1) = (tick ?c1)\<lparr>clock := clock (tick ?c1) + D\<rparr>"
    by (rule elapse_nothing_due) (simp add: tm)
  show "let c1 = ?c1; c2 = tick c1
          in map callback (timers c1) = [ResumeClickOutside] \<and>
             calls c1 = calls c \<and> state c1 = state c \<and> pending c1 = pending c \<and>
             timers c2 = [] \<and>
             calls c2 = calls c @ (if onClose (props c) then [OnClose] else []) \<and>
             (\<not> isControlled c \<longrightarrow> \<not> isOpen (state c2) \<and> \<not> get_isOpen c2) \<and>
             calls (elapse D c2) = calls c2 \<and> state (elapse D c2) = state c2"
    unfolding Let_def e
    using g by (simp add: tm t f get_isOpen_def isControlled_def)
qed

theorem click_outside_cancels_blur_close_witness:
  "timers example = [] \<and> \<not> isControlled example \<and> isOpen (state example) \<and>
   (let c1 = handleClickOutside (elapse 0 (makehandleInputBlur True example));
        c2 = tick c1
    in map callback (timers c1) = [ResumeClickOutside] \<and> calls c1 = [] \<and>
       isOpen (state c1) \<and>
       timers c2 = [] \<and> calls c2 = [OnClose] \<and> \<not> isOpen (state c2) \<and>
       calls (elapse 1000 c2) = [OnClose])"
proof -
  have a: "timers example = []" "\<not> isControlled example" "isOpen (state example)"
    "calls example = []" "onClose (props example)"
    by (simp_all add: example_def mount_def example_props_def isControlled_def)
  have d: "(0::nat) < 200" by simp
  note t = click_outside_cancels_blur_close [OF a(1) d, of example True 1000, THEN conjunct2]
  show ?thesis
    using t a by (simp add: Let_def)
qed

end
